theory Spec2Isabelle
  imports Main "HOL-Library.Word"
begin

section \<open>Page load statistics: worker pool, retry loop, orchestration, parsing\<close>

subsection \<open>Values shared by both source files\<close>

text \<open>
  A \<^verbatim>\<open>*phantomjs.Phantom\<close> is a pointer: either \<^verbatim>\<open>nil\<close> or the address of one
  worker process. The pool compares such pointers with \<^verbatim>\<open>==\<close>, that is by address.
\<close>

datatype phantom_ptr = nil | Ptr nat

text \<open>
  A Go \<^verbatim>\<open>error\<close> value is modelled by its message. A run-time panic (an index out of
  range, \<^verbatim>\<open>panic(err)\<close>) is the second constructor: it unwinds the callers instead of
  being returned, so code that tests \<^verbatim>\<open>err == nil\<close> never sees it.
  A fallible function returns \<open>error + 'a\<close> with \<open>Inl\<close> for the failure.
\<close>

datatype error = Error string | Panic string

subsection \<open>The worker pool (workers_pool.go)\<close>

text \<open>
  \<^verbatim>\<open>type workersPool struct { mu sync.Mutex; used []bool; workers []*phantomjs.Phantom; size int }\<close>

  The mutex is held for the whole body of \<^verbatim>\<open>getPhantom\<close> and \<^verbatim>\<open>releasePhantom\<close>, so
  each of them is one atomic step on the pool; the model is the sequential function of
  that step. The field \<^verbatim>\<open>size\<close> is named \<open>pool_size\<close> here.
\<close>

record workersPool =
  used :: "bool list"
  workers :: "phantom_ptr list"
  pool_size :: int

text \<open>
  \<^verbatim>\<open>for i := 0; i < p.size; i++ { if !p.used[i] { p.used[i] = true; return p.workers[i], nil } }\<close>
  \<^verbatim>\<open>return nil, fmt.Errorf("Could not get phantom process")\<close>

  The loop counter is the first argument. Go checks every index: reading or writing
  outside a slice panics, and the write to \<^verbatim>\<open>used[i]\<close> comes before the read of
  \<^verbatim>\<open>workers[i]\<close>.
\<close>

function getPhantom_loop :: "nat \<Rightarrow> workersPool \<Rightarrow> (error + phantom_ptr) \<times> workersPool" where
  "getPhantom_loop i p =
     (if int i < pool_size p then
        (if length (used p) \<le> i then (Inl (Panic ''index out of range''), p)
         else if \<not> used p ! i then
           (let p' = p\<lparr>used := (used p)[i := True]\<rparr> in
            if length (workers p') \<le> i then (Inl (Panic ''index out of range''), p')
            else (Inr (workers p' ! i), p'))
         else getPhantom_loop (i + 1) p)
      else (Inl (Error ''Could not get phantom process''), p))"
  by pat_completeness auto
termination
  by (relation "measure (\<lambda>(i, p). nat (pool_size p - int i))") auto

definition getPhantom :: "workersPool \<Rightarrow> (error + phantom_ptr) \<times> workersPool" where
  "getPhantom p = getPhantom_loop 0 p"

text \<open>
  \<^verbatim>\<open>for i := 0; i < p.size; i++ { if p.workers[i] == phantom { p.used[i] = false; return nil } }\<close>
  \<^verbatim>\<open>return fmt.Errorf("Could not release phantom process")\<close>

  The returned \<^verbatim>\<open>error\<close> is \<open>Inr ()\<close> for \<^verbatim>\<open>nil\<close>.
\<close>

function releasePhantom_loop :: "nat \<Rightarrow> workersPool \<Rightarrow> phantom_ptr \<Rightarrow> (error + unit) \<times> workersPool" where
  "releasePhantom_loop i p ph =
     (if int i < pool_size p then
        (if length (workers p) \<le> i then (Inl (Panic ''index out of range''), p)
         else if workers p ! i = ph then
           (if length (used p) \<le> i then (Inl (Panic ''index out of range''), p)
            else (Inr (), p\<lparr>used := (used p)[i := False]\<rparr>))
         else releasePhantom_loop (i + 1) p ph)
      else (Inl (Error ''Could not release phantom process''), p))"
  by pat_completeness auto
termination
  by (relation "measure (\<lambda>(i, p, ph). nat (pool_size p - int i))") auto

definition releasePhantom :: "workersPool \<Rightarrow> phantom_ptr \<Rightarrow> (error + unit) \<times> workersPool" where
  "releasePhantom p ph = releasePhantom_loop 0 p ph"

text \<open>
  \<^verbatim>\<open>New(poolSize)\<close> allocates both slices with \<^verbatim>\<open>make\<close> (which panics on a negative
  length), then fills \<^verbatim>\<open>workers[i]\<close> with the result of the \<open>i\<close>-th call of
  \<^verbatim>\<open>phantomjs.Start()\<close> and panics with the error of the first call that fails.
  \<^verbatim>\<open>phantomjs.Start\<close> belongs to the engine library; the outcome of its \<open>i\<close>-th call
  is the parameter \<open>Start i\<close>.
\<close>

function New_loop :: "nat \<Rightarrow> (nat \<Rightarrow> error + phantom_ptr) \<Rightarrow> workersPool \<Rightarrow> error + workersPool" where
  "New_loop i Start p =
     (if int i < pool_size p then
        (case Start i of
           Inl (Error m) \<Rightarrow> Inl (Panic m)
         | Inl (Panic m) \<Rightarrow> Inl (Panic m)
         | Inr ph \<Rightarrow>
             if length (workers p) \<le> i then Inl (Panic ''index out of range'')
             else New_loop (i + 1) Start (p\<lparr>workers := (workers p)[i := ph]\<rparr>))
      else Inr p)"
  by pat_completeness auto
termination
  by (relation "measure (\<lambda>(i, Start, p). nat (pool_size p - int i))") auto

definition New :: "int \<Rightarrow> (nat \<Rightarrow> error + phantom_ptr) \<Rightarrow> error + workersPool" where
  "New poolSize Start =
     (if poolSize < 0 then Inl (Panic ''makeslice: len out of range'')
      else New_loop 0 Start
             \<lparr>used = replicate (nat poolSize) False,
              workers = replicate (nat poolSize) nil,
              pool_size = poolSize\<rparr>)"

subsection \<open>Measurement records (the main source file)\<close>

text \<open>
  \<^verbatim>\<open>int64\<close> and \<^verbatim>\<open>int32\<close> are machine words; a \<^verbatim>\<open>time.Duration\<close> is an \<^verbatim>\<open>int64\<close>
  count of nanoseconds, so \<^verbatim>\<open>time.Millisecond\<close> is 1000000 and a product of durations
  wraps around. A \<^verbatim>\<open>time.Time\<close> is kept as an instant in nanoseconds.
\<close>

type_synonym int64 = "64 word"
type_synonym int32 = "32 word"
type_synonym Duration = "64 word"
type_synonym Time = int

definition Millisecond :: Duration where
  "Millisecond = 1000000"

record RequestMeasurements =
  StartTime :: Time
  EndTime :: Time
  RunningTime :: int64
  RunningTimeDuration :: Duration
  Status :: int32
  URL :: string

text \<open>
  \<^verbatim>\<open>Responses map[int32]RequestMeasurements\<close> is kept as the list of its entries, keys
  distinct, in the order in which a \<^verbatim>\<open>range\<close> statement visits them; \<open>map_of\<close> looks
  a key up.
\<close>

record PageMeasurements =
  LoadTime :: int64
  Responses :: "(int32 \<times> RequestMeasurements) list"
  LoadTimeDuration :: Duration
  ThumbnailFile :: string

subsection \<open>Observable effects\<close>

text \<open>
  \<^verbatim>\<open>getJsFunc(url, thumbnailFile)\<close> splices its two arguments into a fixed script text;
  the script is kept as the pair of the two arguments.
\<close>

datatype script = getJsFunc string string

text \<open>
  The calls whose number and order matter are recorded in a trace next to the state
  they act on: a call of the function handed to the retry loop with what it returned,
  a \<^verbatim>\<open>time.Sleep\<close> with its duration, a call of \<^verbatim>\<open>releasePhantom\<close> with its argument,
  a call of \<^verbatim>\<open>ioutil.TempFile\<close> with its directory and a call of \<^verbatim>\<open>phantom.Run\<close>.
  The trace is ghost state: no source function reads it.
\<close>

datatype event =
    EvCall "error + phantom_ptr"
  | EvSleep Duration
  | EvRelease phantom_ptr
  | EvTempFile string
  | EvRun phantom_ptr script

record 'p world =
  st :: 'p
  trace :: "event list"

definition time_Sleep :: "Duration \<Rightarrow> 'p world \<Rightarrow> 'p world" where
  "time_Sleep d w = w\<lparr>trace := trace w @ [EvSleep d]\<rparr>"

subsection \<open>The acquisition retry loop\<close>

text \<open>
  \<^verbatim>\<open>func try(maxTries int, fn getFreePhantomFunc) (*phantomjs.Phantom, error)\<close>

  \<^verbatim>\<open>attempt := 1\<close>
  \<^verbatim>\<open>for attempt <= maxTries { res, err := fn(); if err == nil { return res, nil };\<close>
  \<^verbatim>\<open>  time.Sleep(200 * time.Millisecond); attempt++ }\<close>
  \<^verbatim>\<open>return nil, errors.New("Maximum phantom wait time exceeded")\<close>

  \<open>fn\<close> is a closure over some state of type \<open>'p\<close> (the pool, for \<^verbatim>\<open>getPhantom\<close>);
  calling it returns a result and the next state. A panic inside \<open>fn\<close> leaves the loop
  at once. The counter \<^verbatim>\<open>attempt\<close> stays between 1 and \<^verbatim>\<open>maxTries + 1\<close>; it is an
  unbounded integer here, which differs from Go's \<^verbatim>\<open>int\<close> only when \<^verbatim>\<open>maxTries\<close> is
  the largest \<^verbatim>\<open>int\<close> and that many attempts have failed.
\<close>

function try_loop ::
  "int \<Rightarrow> int \<Rightarrow> ('p \<Rightarrow> (error + phantom_ptr) \<times> 'p) \<Rightarrow> 'p world \<Rightarrow> (error + phantom_ptr) \<times> 'p world" where
  "try_loop attempt maxTries fn w =
     (if attempt \<le> maxTries then
        (case fn (st w) of (r, p') \<Rightarrow>
           (let w1 = w\<lparr>st := p', trace := trace w @ [EvCall r]\<rparr> in
            case r of
              Inr res \<Rightarrow> (Inr res, w1)
            | Inl (Panic m) \<Rightarrow> (Inl (Panic m), w1)
            | Inl (Error m) \<Rightarrow>
                try_loop (attempt + 1) maxTries fn (time_Sleep (200 * Millisecond) w1)))
      else (Inl (Error ''Maximum phantom wait time exceeded''), w))"
  by pat_completeness auto
termination
  by (relation "measure (\<lambda>(attempt, maxTries, fn, w). nat (maxTries + 1 - attempt))") auto

definition try_fn ::
  "int \<Rightarrow> ('p \<Rightarrow> (error + phantom_ptr) \<times> 'p) \<Rightarrow> 'p world \<Rightarrow> (error + phantom_ptr) \<times> 'p world" where
  "try_fn maxTries fn w = try_loop 1 maxTries fn w"

subsection \<open>The measurement orchestrator and the result parser\<close>

text \<open>
  The library and engine functions the orchestrator calls are parameters: what
  \<^verbatim>\<open>url.ParseRequestURI\<close> says of a string, the path \<^verbatim>\<open>ioutil.TempFile(dir, "thumb")\<close>
  creates, what \<^verbatim>\<open>phantom.Run\<close> stores in \<^verbatim>\<open>result\<close>, and the two conversions of
  \<^verbatim>\<open>encoding/json\<close>. \<open>Unmarshal\<close> gives the record that decoding fills in, starting
  from the zero value. \<open>'r\<close> is the type of the engine's untyped result.
\<close>

record 'r env =
  ParseRequestURI :: "string \<Rightarrow> error + unit"
  TempFile :: "string \<Rightarrow> error + string"
  Run :: "phantom_ptr \<Rightarrow> script \<Rightarrow> error + 'r"
  Marshal :: "'r \<Rightarrow> error + string"
  Unmarshal :: "string \<Rightarrow> error + PageMeasurements"

text \<open>
  \<^verbatim>\<open>getThumbnailFile\<close>: with a non-empty directory, create a temporary file there and
  return its name; otherwise return the empty string.
\<close>

definition getThumbnailFile :: "'r env \<Rightarrow> string \<Rightarrow> 'p world \<Rightarrow> (error + string) \<times> 'p world" where
  "getThumbnailFile env thumbnailsDir w =
     (if length thumbnailsDir > 0 then
        (let w1 = w\<lparr>trace := trace w @ [EvTempFile thumbnailsDir]\<rparr> in
         case TempFile env thumbnailsDir of
           Inl err \<Rightarrow> (Inl err, w1)
         | Inr name \<Rightarrow> (Inr name, w1))
      else (Inr [], w))"

text \<open>
  \<^verbatim>\<open>for _, v := range performance.Responses {\<close>
  \<^verbatim>\<open>  v.RunningTimeDuration = time.Duration(v.RunningTime) * time.Millisecond }\<close>

  In Go the loop variable \<^verbatim>\<open>v\<close> is a copy of the map's value: the body assigns to a
  field of that copy, and nothing is stored into \<^verbatim>\<open>performance.Responses\<close>. The loop
  is the recursion over the entries; \<^verbatim>\<open>performance\<close> is passed along unchanged.
\<close>

fun range_Responses ::
  "(int32 \<times> RequestMeasurements) list \<Rightarrow> PageMeasurements \<Rightarrow> PageMeasurements" where
  "range_Responses [] performance = performance"
| "range_Responses ((k, v) # rest) performance =
     (let v = v\<lparr>RunningTimeDuration := RunningTime v * Millisecond\<rparr>
      in range_Responses rest performance)"

definition getMeasurementsInternal ::
  "'r env \<Rightarrow> phantom_ptr \<Rightarrow> string \<Rightarrow> string \<Rightarrow> 'p world \<Rightarrow> (error + PageMeasurements) \<times> 'p world" where
  "getMeasurementsInternal env ph rawurl thumbnailsDir w =
     (case getThumbnailFile env thumbnailsDir w of
        (Inl err, w1) \<Rightarrow> (Inl err, w1)
      | (Inr thumbnailFile, w1) \<Rightarrow>
          (let w2 = w1\<lparr>trace := trace w1 @ [EvRun ph (getJsFunc rawurl thumbnailFile)]\<rparr> in
           case Run env ph (getJsFunc rawurl thumbnailFile) of
             Inl err \<Rightarrow> (Inl err, w2)
           | Inr result \<Rightarrow>
               (case Marshal env result of
                  Inl err \<Rightarrow> (Inl err, w2)
                | Inr jsonResult \<Rightarrow>
                    (case Unmarshal env jsonResult of
                       Inl err \<Rightarrow> (Inl err, w2)
                     | Inr performance \<Rightarrow>
                         (let performance = performance\<lparr>LoadTimeDuration := LoadTime performance * Millisecond\<rparr>;
                              performance = (if length thumbnailFile > 0
                                             then performance\<lparr>ThumbnailFile := thumbnailFile\<rparr>
                                             else performance);
                              performance = range_Responses (Responses performance) performance
                          in (Inr performance, w2))))))"

text \<open>
  \<^verbatim>\<open>defer (*loadTimer).releasePhantom(phantom)\<close>: the call runs when \<^verbatim>\<open>GetMeasurements\<close>
  leaves, whatever \<^verbatim>\<open>getMeasurementsInternal\<close> returned, and the error it returns is
  dropped; only a panic inside it replaces the outcome. The variable \<^verbatim>\<open>phantom\<close> of
  the source is \<open>ph\<close>.
\<close>

definition call_releasePhantom ::
  "phantom_ptr \<Rightarrow> workersPool world \<Rightarrow> (error + unit) \<times> workersPool world" where
  "call_releasePhantom ph w =
     (case releasePhantom (st w) ph of
        (r, p') \<Rightarrow> (r, w\<lparr>st := p', trace := trace w @ [EvRelease ph]\<rparr>))"

definition GetMeasurements ::
  "'r env \<Rightarrow> string \<Rightarrow> int \<Rightarrow> string \<Rightarrow> workersPool world \<Rightarrow> (error + PageMeasurements) \<times> workersPool world" where
  "GetMeasurements env rawurl nrOfTries thumbnailsDir w =
     (case ParseRequestURI env rawurl of
        Inl err \<Rightarrow> (Inl err, w)
      | Inr u \<Rightarrow>
          if nrOfTries < 1
          then (Inl (Error ''You have to specify at least one try to get any result''), w)
          else
            (case try_fn nrOfTries getPhantom w of
               (Inl err, w1) \<Rightarrow> (Inl err, w1)
             | (Inr ph, w1) \<Rightarrow>
                 (case getMeasurementsInternal env ph rawurl thumbnailsDir w1 of
                    (performance, w2) \<Rightarrow>
                      (case call_releasePhantom ph w2 of
                         (Inl (Panic m), w3) \<Rightarrow> (Inl (Panic m), w3)
                       | (r, w3) \<Rightarrow> (performance, w3)))))"

subsection \<open>Vocabulary for the properties\<close>

text \<open>
  A pool is well formed when both slices have \<^verbatim>\<open>size\<close> entries, as \<open>New\<close> builds it.
  \<open>in_use\<close> counts the flags that are set.
\<close>

definition wf_pool :: "workersPool \<Rightarrow> bool" where
  "wf_pool p \<longleftrightarrow> pool_size p = int (length (used p)) \<and> length (workers p) = length (used p)"

definition in_use :: "workersPool \<Rightarrow> nat" where
  "in_use p = length (filter (\<lambda>b. b) (used p))"

text \<open>
  The pool operations a caller can issue, the state they leave, and \<open>n\<close> acquisitions
  in a row that all succeed (\<open>None\<close> as soon as one fails).
\<close>

datatype pool_op = Acquire | Release phantom_ptr

fun apply_op :: "pool_op \<Rightarrow> workersPool \<Rightarrow> workersPool" where
  "apply_op Acquire p = snd (getPhantom p)"
| "apply_op (Release ph) p = snd (releasePhantom p ph)"

fun acquire_n :: "nat \<Rightarrow> workersPool \<Rightarrow> workersPool option" where
  "acquire_n 0 p = Some p"
| "acquire_n (Suc n) p =
     (case getPhantom p of
        (Inr h, p') \<Rightarrow> acquire_n n p'
      | (Inl e, p') \<Rightarrow> None)"

text \<open>
  \<open>state_after fn n p\<close> is the closure state after \<open>n\<close> calls of \<open>fn\<close> from \<open>p\<close>, so
  \<open>fst (fn (state_after fn k p))\<close> is what call number \<open>k + 1\<close> returns.
  \<open>fail_round m\<close> is the trace of one failed attempt: the call that returned the error
  \<open>m\<close>, then the sleep of 200 ms. The three projections read one kind of event off a
  trace.
\<close>

fun state_after :: "('p \<Rightarrow> (error + phantom_ptr) \<times> 'p) \<Rightarrow> nat \<Rightarrow> 'p \<Rightarrow> 'p" where
  "state_after fn 0 p = p"
| "state_after fn (Suc n) p = state_after fn n (snd (fn p))"

definition fail_round :: "string \<Rightarrow> event list" where
  "fail_round m = [EvCall (Inl (Error m)), EvSleep (200 * Millisecond)]"

fun calls_of :: "event list \<Rightarrow> (error + phantom_ptr) list" where
  "calls_of [] = []"
| "calls_of (EvCall r # es) = r # calls_of es"
| "calls_of (e # es) = calls_of es"

fun sleeps_of :: "event list \<Rightarrow> Duration list" where
  "sleeps_of [] = []"
| "sleeps_of (EvSleep d # es) = d # sleeps_of es"
| "sleeps_of (e # es) = sleeps_of es"

fun released :: "event list \<Rightarrow> phantom_ptr list" where
  "released [] = []"
| "released (EvRelease ph # es) = ph # released es"
| "released (e # es) = released es"

subsection \<open>Sample inputs\<close>

text \<open>Pools of two and three workers, and the engine starting without error.\<close>

definition Start_ok :: "nat \<Rightarrow> error + phantom_ptr" where
  "Start_ok i = Inr (Ptr (10 + i))"

definition pool_new :: workersPool where
  "pool_new = \<lparr>used = [False, False], workers = [Ptr 10, Ptr 11], pool_size = 2\<rparr>"

definition pool_a :: workersPool where
  "pool_a = \<lparr>used = [True, False, False], workers = [Ptr 10, Ptr 11, Ptr 12], pool_size = 3\<rparr>"

definition pool_b :: workersPool where
  "pool_b = \<lparr>used = [True, False], workers = [Ptr 10, Ptr 11], pool_size = 2\<rparr>"

definition pool_full :: workersPool where
  "pool_full = \<lparr>used = [True, True], workers = [Ptr 10, Ptr 11], pool_size = 2\<rparr>"

text \<open>A closure that fails on its first call and returns a handle from then on.\<close>

definition flaky :: "nat \<Rightarrow> (error + phantom_ptr) \<times> nat" where
  "flaky c = (if c < 1 then (Inl (Error ''busy''), c + 1) else (Inr (Ptr 7), c + 1))"

text \<open>
  An engine result with \<^verbatim>\<open>loadTime\<close> 500 and one response, number 1, of
  \<^verbatim>\<open>runningTime\<close> 100, as \<^verbatim>\<open>json.Unmarshal\<close> decodes it: the two duration fields are
  not in the engine's output and keep their zero value. The sample environment rejects
  one string as a URL, creates \<^verbatim>\<open>thumb1\<close> in the directory it is given and decodes
  that result.
\<close>

definition decoded_page :: PageMeasurements where
  "decoded_page =
     \<lparr>LoadTime = 500,
      Responses = [(1, \<lparr>StartTime = 0, EndTime = 100000000, RunningTime = 100,
                         RunningTimeDuration = 0, Status = 200, URL = ''http://a''\<rparr>)],
      LoadTimeDuration = 0,
      ThumbnailFile = []\<rparr>"

definition env_ok :: "string env" where
  "env_ok =
     \<lparr>ParseRequestURI = (\<lambda>s. if s = ''not-a-url''
                              then Inl (Error ''parse not-a-url: invalid URI for request'')
                              else Inr ()),
      TempFile = (\<lambda>dir. Inr (dir @ ''/thumb1'')),
      Run = (\<lambda>ph s. Inr ''result''),
      Marshal = (\<lambda>r. Inr ''json''),
      Unmarshal = (\<lambda>j. Inr decoded_page)\<rparr>"

definition world0 :: "workersPool world" where
  "world0 = \<lparr>st = pool_new, trace = []\<rparr>"

section \<open>Properties\<close>

declare getPhantom_loop.simps [simp del]
declare releasePhantom_loop.simps [simp del]
declare New_loop.simps [simp del]
declare try_loop.simps [simp del]

subsection \<open>The pool\<close>

lemma getPhantom_loop_first_free:
  assumes "wf_pool p" "i < length (used p)" "\<not> used p ! i"
    and "\<forall>j. i0 \<le> j \<and> j < i \<longrightarrow> used p ! j" "i0 \<le> i"
  shows "getPhantom_loop i0 p = (Inr (workers p ! i), p\<lparr>used := (used p)[i := True]\<rparr>)"
  using assms
proof (induction i0 p rule: getPhantom_loop.induct)
  case (1 i0 p)
  show ?case
  proof (cases "i0 = i")
    case True
    with 1 show ?thesis
      by (subst getPhantom_loop.simps) (simp add: wf_pool_def)
  next
    case False
    with 1 have lt: "i0 < i" by simp
    with 1 have u: "used p ! i0" by simp
    have "getPhantom_loop i0 p = getPhantom_loop (i0 + 1) p"
      using 1 lt u by (subst getPhantom_loop.simps) (simp add: wf_pool_def)
    also have "\<dots> = (Inr (workers p ! i), p\<lparr>used := (used p)[i := True]\<rparr>)"
      using 1 lt u by (intro "1.IH") (auto simp: wf_pool_def)
    finally show ?thesis .
  qed
qed

lemma getPhantom_loop_all_used:
  assumes "wf_pool p" "\<forall>j. i0 \<le> j \<and> j < length (used p) \<longrightarrow> used p ! j"
  shows "getPhantom_loop i0 p = (Inl (Error ''Could not get phantom process''), p)"
  using assms
proof (induction i0 p rule: getPhantom_loop.induct)
  case (1 i0 p)
  show ?case
  proof (cases "i0 < length (used p)")
    case True
    with 1 have u: "used p ! i0" by simp
    have "getPhantom_loop i0 p = getPhantom_loop (i0 + 1) p"
      using 1 True u by (subst getPhantom_loop.simps) (simp add: wf_pool_def)
    also have "\<dots> = (Inl (Error ''Could not get phantom process''), p)"
      using 1 True u by (intro "1.IH") (auto simp: wf_pool_def)
    finally show ?thesis .
  next
    case False
    with 1 show ?thesis
      by (subst getPhantom_loop.simps) (simp add: wf_pool_def)
  qed
qed

lemma releasePhantom_loop_found:
  assumes "wf_pool p" "i < length (workers p)" "workers p ! i = ph"
    and "\<forall>j. i0 \<le> j \<and> j < i \<longrightarrow> workers p ! j \<noteq> ph" "i0 \<le> i"
  shows "releasePhantom_loop i0 p ph = (Inr (), p\<lparr>used := (used p)[i := False]\<rparr>)"
  using assms
proof (induction i0 p ph rule: releasePhantom_loop.induct)
  case (1 i0 p ph)
  show ?case
  proof (cases "i0 = i")
    case True
    with 1 show ?thesis
      by (subst releasePhantom_loop.simps) (simp add: wf_pool_def)
  next
    case False
    with 1 have lt: "i0 < i" by simp
    with 1 have u: "workers p ! i0 \<noteq> ph" by simp
    have "releasePhantom_loop i0 p ph = releasePhantom_loop (i0 + 1) p ph"
      using 1 lt u by (subst releasePhantom_loop.simps) (simp add: wf_pool_def)
    also have "\<dots> = (Inr (), p\<lparr>used := (used p)[i := False]\<rparr>)"
      using 1 lt u by (intro "1.IH") (auto simp: wf_pool_def)
    finally show ?thesis .
  qed
qed

lemma releasePhantom_loop_absent:
  assumes "wf_pool p" "\<forall>j. i0 \<le> j \<and> j < length (workers p) \<longrightarrow> workers p ! j \<noteq> ph"
  shows "releasePhantom_loop i0 p ph = (Inl (Error ''Could not release phantom process''), p)"
  using assms
proof (induction i0 p ph rule: releasePhantom_loop.induct)
  case (1 i0 p ph)
  show ?case
  proof (cases "i0 < length (workers p)")
    case True
    with 1 have u: "workers p ! i0 \<noteq> ph" by simp
    have "releasePhantom_loop i0 p ph = releasePhantom_loop (i0 + 1) p ph"
      using 1 True u by (subst releasePhantom_loop.simps) (simp add: wf_pool_def)
    also have "\<dots> = (Inl (Error ''Could not release phantom process''), p)"
      using 1 True u by (intro "1.IH") (auto simp: wf_pool_def)
    finally show ?thesis .
  next
    case False
    with 1 show ?thesis
      by (subst releasePhantom_loop.simps) (simp add: wf_pool_def)
  qed
qed

lemma getPhantom_cases:
  assumes "wf_pool p"
  shows "(\<exists>i<length (used p). \<not> used p ! i \<and> (\<forall>j<i. used p ! j) \<and>
            getPhantom p = (Inr (workers p ! i), p\<lparr>used := (used p)[i := True]\<rparr>))
         \<or> ((\<forall>i<length (used p). used p ! i) \<and>
            getPhantom p = (Inl (Error ''Could not get phantom process''), p))"
proof (cases "\<exists>i<length (used p). \<not> used p ! i")
  case True
  define k where "k = (LEAST i. i < length (used p) \<and> \<not> used p ! i)"
  from True have k: "k < length (used p) \<and> \<not> used p ! k"
    unfolding k_def by (rule LeastI_ex)
  have below: "used p ! j" if "j < k" for j
  proof (rule ccontr)
    assume "\<not> used p ! j"
    with that k have "j < length (used p) \<and> \<not> used p ! j" by simp
    then have "k \<le> j" unfolding k_def by (rule Least_le)
    with that show False by simp
  qed
  have "getPhantom p = (Inr (workers p ! k), p\<lparr>used := (used p)[k := True]\<rparr>)"
    unfolding getPhantom_def using assms k below
    by (intro getPhantom_loop_first_free) auto
  with k below show ?thesis by blast
next
  case False
  then have all: "\<forall>i<length (used p). used p ! i" by blast
  then have "getPhantom p = (Inl (Error ''Could not get phantom process''), p)"
    unfolding getPhantom_def using assms by (intro getPhantom_loop_all_used) auto
  with all show ?thesis by blast
qed

text \<open>
  C4. On a well-formed pool, \<^verbatim>\<open>getPhantom\<close> scans the flags in index order: if some flag
  is free, it sets the free flag of lowest index and returns the handle stored at that
  index, changing nothing else; if every flag is set, it returns the error
  \<^verbatim>\<open>Could not get phantom process\<close> and leaves the pool as it was.
\<close>
theorem getPhantom_first_free:
  assumes "wf_pool p"
  shows "((\<exists>i<length (used p). \<not> used p ! i) \<longrightarrow>
            (\<exists>i<length (used p). \<not> used p ! i \<and> (\<forall>j<i. used p ! j) \<and>
               getPhantom p = (Inr (workers p ! i), p\<lparr>used := (used p)[i := True]\<rparr>)))
       \<and> ((\<forall>i<length (used p). used p ! i) \<longrightarrow>
            getPhantom p = (Inl (Error ''Could not get phantom process''), p))"
  using getPhantom_cases [OF assms] by blast

theorem getPhantom_first_free_witness:
  "wf_pool pool_a \<and> (\<exists>i<length (used pool_a). \<not> used pool_a ! i)
   \<and> getPhantom pool_a = (Inr (Ptr 11), pool_a\<lparr>used := [True, True, False]\<rparr>)
   \<and> wf_pool pool_full \<and> used pool_full = [True, True]
   \<and> getPhantom pool_full = (Inl (Error ''Could not get phantom process''), pool_full)"
proof -
  have wa: "wf_pool pool_a" and wf: "wf_pool pool_full"
    by (simp_all add: wf_pool_def pool_a_def pool_full_def)
  have ex: "\<exists>i<length (used pool_a). \<not> used pool_a ! i"
    by (rule exI [of _ 1]) (simp add: pool_a_def)
  have all: "\<forall>i<length (used pool_full). used pool_full ! i"
    by (simp add: pool_full_def less_Suc_eq all_conj_distrib)
  from getPhantom_first_free [OF wa] ex
  obtain i where i: "i < length (used pool_a)" "\<not> used pool_a ! i" "\<forall>j<i. used pool_a ! j"
    "getPhantom pool_a = (Inr (workers pool_a ! i), pool_a\<lparr>used := (used pool_a)[i := True]\<rparr>)"
    by blast
  from i(1,2,3) have "i = 1"
    by (auto simp: pool_a_def less_Suc_eq nth_Cons')
  with i(4) have a: "getPhantom pool_a = (Inr (Ptr 11), pool_a\<lparr>used := [True, True, False]\<rparr>)"
    by (simp add: pool_a_def)
  from getPhantom_first_free [OF wf] all
  have b: "getPhantom pool_full = (Inl (Error ''Could not get phantom process''), pool_full)"
    by blast
  have u: "used pool_full = [True, True]" by (simp add: pool_full_def)
  from wa wf ex u a b show ?thesis by blast
qed

text \<open>
  C5. Releasing a handle that is not stored in the pool returns the error
  \<^verbatim>\<open>Could not release phantom process\<close> and leaves the flags and the handles, indeed
  the whole pool, unchanged.
\<close>
theorem releasePhantom_foreign:
  assumes "wf_pool p" "ph \<notin> set (workers p)"
  shows "releasePhantom p ph = (Inl (Error ''Could not release phantom process''), p)"
  unfolding releasePhantom_def using assms
  by (intro releasePhantom_loop_absent) auto

theorem releasePhantom_foreign_witness:
  "wf_pool pool_a \<and> Ptr 99 \<notin> set (workers pool_a)
   \<and> releasePhantom pool_a (Ptr 99) = (Inl (Error ''Could not release phantom process''), pool_a)"
proof -
  have w: "wf_pool pool_a" by (simp add: wf_pool_def pool_a_def)
  have n: "Ptr 99 \<notin> set (workers pool_a)" by (simp add: pool_a_def)
  from w n releasePhantom_foreign [OF w n] show ?thesis by blast
qed

lemma releasePhantom_stored:
  assumes "wf_pool p" "ph \<in> set (workers p)"
  shows "\<exists>k<length (workers p). workers p ! k = ph \<and> (\<forall>j<k. workers p ! j \<noteq> ph) \<and>
           releasePhantom p ph = (Inr (), p\<lparr>used := (used p)[k := False]\<rparr>)"
proof -
  from assms(2) have ex: "\<exists>i. i < length (workers p) \<and> workers p ! i = ph"
    by (auto simp: in_set_conv_nth)
  define k where "k = (LEAST i. i < length (workers p) \<and> workers p ! i = ph)"
  from ex have k: "k < length (workers p) \<and> workers p ! k = ph"
    unfolding k_def by (rule LeastI_ex)
  have below: "workers p ! j \<noteq> ph" if "j < k" for j
  proof
    assume "workers p ! j = ph"
    with that k have "j < length (workers p) \<and> workers p ! j = ph" by simp
    then have "k \<le> j" unfolding k_def by (rule Least_le)
    with that show False by simp
  qed
  have "releasePhantom p ph = (Inr (), p\<lparr>used := (used p)[k := False]\<rparr>)"
    unfolding releasePhantom_def using assms(1) k below
    by (intro releasePhantom_loop_found) auto
  with k below show ?thesis by blast
qed

lemma wf_pool_used_update: "wf_pool p \<Longrightarrow> wf_pool (p\<lparr>used := (used p)[k := b]\<rparr>)"
  by (simp add: wf_pool_def)

text \<open>
  C8. Releasing a handle that is stored in the pool at a slot whose flag is free returns
  no error and leaves that flag free; releasing it once more returns no error and
  changes nothing (release is idempotent); and when the slot is the first one that
  stores the handle, as it is whenever the handles are distinct, the first release
  already leaves the pool unchanged.
\<close>
theorem releasePhantom_free_handle:
  assumes "wf_pool p" "i < length (workers p)" "workers p ! i = ph" "\<not> used p ! i"
  shows "fst (releasePhantom p ph) = Inr ()
       \<and> \<not> used (snd (releasePhantom p ph)) ! i
       \<and> releasePhantom (snd (releasePhantom p ph)) ph = (Inr (), snd (releasePhantom p ph))
       \<and> ((\<forall>j<i. workers p ! j \<noteq> ph) \<longrightarrow> releasePhantom p ph = (Inr (), p))"
proof -
  from assms(2,3) have "ph \<in> set (workers p)" by (auto simp: in_set_conv_nth)
  from releasePhantom_stored [OF assms(1) this]
  obtain k where k: "k < length (workers p)" "workers p ! k = ph" "\<forall>j<k. workers p ! j \<noteq> ph"
    and rel: "releasePhantom p ph = (Inr (), p\<lparr>used := (used p)[k := False]\<rparr>)"
    by blast
  let ?p' = "p\<lparr>used := (used p)[k := False]\<rparr>"
  have len: "length (used p) = length (workers p)"
    using assms(1) by (simp add: wf_pool_def)
  have flag: "\<not> used ?p' ! i"
    using assms(2,4) len by (cases "k = i") simp_all
  have wf': "wf_pool ?p'" using assms(1) by (rule wf_pool_used_update)
  have "ph \<in> set (workers ?p')" using \<open>ph \<in> set (workers p)\<close> by simp
  from releasePhantom_stored [OF wf' this]
  obtain k' where k': "k' < length (workers p)" "workers p ! k' = ph" "\<forall>j<k'. workers p ! j \<noteq> ph"
    and rel': "releasePhantom ?p' ph = (Inr (), ?p'\<lparr>used := (used ?p')[k' := False]\<rparr>)"
    by auto
  have "k' = k"
    using k k' by (metis linorder_neqE_nat)
  with rel' have again: "releasePhantom ?p' ph = (Inr (), ?p')" by simp
  have noop: "releasePhantom p ph = (Inr (), p)" if "\<forall>j<i. workers p ! j \<noteq> ph"
  proof -
    have "k = i" using k that assms(2,3) by (metis linorder_neqE_nat)
    moreover have "(used p)[i := False] = used p"
      using assms(4) list_update_id [of "used p" i] by simp
    ultimately show ?thesis using rel by simp
  qed
  from rel flag again noop show ?thesis by simp
qed

theorem releasePhantom_free_handle_witness:
  "wf_pool pool_b \<and> (1::nat) < length (workers pool_b) \<and> workers pool_b ! 1 = Ptr 11
   \<and> \<not> used pool_b ! 1 \<and> workers pool_b ! 0 \<noteq> Ptr 11
   \<and> releasePhantom pool_b (Ptr 11) = (Inr (), pool_b)
   \<and> releasePhantom (snd (releasePhantom pool_b (Ptr 11))) (Ptr 11) = (Inr (), pool_b)"
proof -
  have h: "wf_pool pool_b" "(1::nat) < length (workers pool_b)" "workers pool_b ! 1 = Ptr 11"
    "\<not> used pool_b ! 1"
    by (simp_all add: wf_pool_def pool_b_def)
  have d: "\<forall>j<1. workers pool_b ! j \<noteq> Ptr 11" by (simp add: pool_b_def)
  from releasePhantom_free_handle [OF h] d
  have "releasePhantom pool_b (Ptr 11) = (Inr (), pool_b)" by blast
  moreover have "workers pool_b ! 0 \<noteq> Ptr 11" by (simp add: pool_b_def)
  ultimately show ?thesis using h by simp
qed

text \<open>
  C9. In a well-formed pool whose handles are pairwise distinct, when \<^verbatim>\<open>getPhantom\<close>
  returns a handle, releasing that handle at once returns no error and gives back
  exactly the pool from before the acquisition.
\<close>
theorem getPhantom_releasePhantom_roundtrip:
  assumes "wf_pool p" "distinct (workers p)" "getPhantom p = (Inr h, p')"
  shows "releasePhantom p' h = (Inr (), p)"
proof -
  from getPhantom_cases [OF assms(1)] assms(3)
  obtain i where i: "i < length (used p)" "\<not> used p ! i"
    and h: "h = workers p ! i" and p': "p' = p\<lparr>used := (used p)[i := True]\<rparr>"
    by auto
  have len: "length (used p) = length (workers p)"
    using assms(1) by (simp add: wf_pool_def)
  have wf': "wf_pool p'" unfolding p' using assms(1) by (rule wf_pool_used_update)
  have hin: "h \<in> set (workers p')" using i len by (simp add: h p')
  from releasePhantom_stored [OF wf' hin]
  obtain k where k: "k < length (workers p)" "workers p ! k = h"
    and rel: "releasePhantom p' h = (Inr (), p'\<lparr>used := (used p')[k := False]\<rparr>)"
    by (auto simp: p')
  have "k = i"
    using k i len h assms(2) by (simp add: nth_eq_iff_index_eq)
  moreover have "(used p)[i := False] = used p"
    using i(2) list_update_id [of "used p" i] by simp
  ultimately show ?thesis using rel by (simp add: p')
qed

theorem getPhantom_releasePhantom_roundtrip_witness:
  "wf_pool pool_a \<and> distinct (workers pool_a)
   \<and> getPhantom pool_a = (Inr (Ptr 11), pool_a\<lparr>used := [True, True, False]\<rparr>)
   \<and> releasePhantom (pool_a\<lparr>used := [True, True, False]\<rparr>) (Ptr 11) = (Inr (), pool_a)"
proof -
  have w: "wf_pool pool_a" by (simp add: wf_pool_def pool_a_def)
  have d: "distinct (workers pool_a)" by (simp add: pool_a_def)
  have g: "getPhantom pool_a = (Inr (Ptr 11), pool_a\<lparr>used := [True, True, False]\<rparr>)"
    by (simp add: getPhantom_def getPhantom_loop.simps pool_a_def)
  from w d g getPhantom_releasePhantom_roundtrip [OF w d g] show ?thesis by blast
qed

lemma New_loop_fields:
  "New_loop i Start p = Inr p' \<Longrightarrow>
   used p' = used p \<and> pool_size p' = pool_size p \<and> length (workers p') = length (workers p)"
proof (induction i Start p rule: New_loop.induct)
  case (1 i Start p)
  show ?case
  proof (cases "int i < pool_size p")
    case False
    with "1.prems" show ?thesis by (subst (asm) New_loop.simps) simp
  next
    case True
    show ?thesis
    proof (cases "Start i")
      case (Inl e)
      with True "1.prems" show ?thesis
        by (subst (asm) New_loop.simps) (simp split: error.splits)
    next
      case (Inr ph)
      with True "1.prems" have len: "\<not> length (workers p) \<le> i"
        and eq: "New_loop (i + 1) Start (p\<lparr>workers := (workers p)[i := ph]\<rparr>) = Inr p'"
        by (subst (asm) New_loop.simps, simp split: if_splits)+
      from "1.IH" [OF True Inr len eq] show ?thesis by simp
    qed
  qed
qed

lemma New_wf:
  assumes "New N Start = Inr p"
  shows "wf_pool p \<and> pool_size p = N \<and> 0 \<le> N \<and> used p = replicate (nat N) False"
proof -
  from assms have N: "0 \<le> N" by (simp add: New_def split: if_splits)
  let ?p0 = "\<lparr>used = replicate (nat N) False, workers = replicate (nat N) nil, pool_size = N\<rparr>"
  from assms N have "New_loop 0 Start ?p0 = Inr p" by (simp add: New_def)
  from New_loop_fields [OF this] N show ?thesis by (simp add: wf_pool_def)
qed

lemma getPhantom_keeps:
  assumes "wf_pool p"
  shows "wf_pool (snd (getPhantom p)) \<and> workers (snd (getPhantom p)) = workers p
       \<and> pool_size (snd (getPhantom p)) = pool_size p"
  using getPhantom_cases [OF assms] assms by (auto simp: wf_pool_def)

lemma releasePhantom_keeps:
  assumes "wf_pool p"
  shows "wf_pool (snd (releasePhantom p ph)) \<and> workers (snd (releasePhantom p ph)) = workers p
       \<and> pool_size (snd (releasePhantom p ph)) = pool_size p"
proof (cases "ph \<in> set (workers p)")
  case True
  from releasePhantom_stored [OF assms True] assms show ?thesis by (auto simp: wf_pool_def)
next
  case False
  have "releasePhantom p ph = (Inl (Error ''Could not release phantom process''), p)"
    unfolding releasePhantom_def using assms False
    by (intro releasePhantom_loop_absent) auto
  with assms show ?thesis by simp
qed

lemma apply_op_keeps:
  "wf_pool p \<Longrightarrow> wf_pool (apply_op x p) \<and> workers (apply_op x p) = workers p
     \<and> pool_size (apply_op x p) = pool_size p"
  by (cases x) (simp_all add: getPhantom_keeps releasePhantom_keeps)

lemma fold_apply_op_keeps:
  "wf_pool p \<Longrightarrow> wf_pool (fold apply_op ops p) \<and> workers (fold apply_op ops p) = workers p
     \<and> pool_size (fold apply_op ops p) = pool_size p"
proof (induction ops arbitrary: p)
  case Nil
  then show ?case by simp
next
  case (Cons x ops)
  from apply_op_keeps [OF Cons.prems, of x] Cons.IH [of "apply_op x p"]
  show ?case by simp
qed

lemma filter_set_True:
  "i < length xs \<Longrightarrow> \<not> xs ! i \<Longrightarrow>
   length (filter (\<lambda>b. b) (xs[i := True])) = Suc (length (filter (\<lambda>b. b) xs))"
proof (induction xs arbitrary: i)
  case Nil
  then show ?case by simp
next
  case (Cons x xs)
  then show ?case by (cases i) simp_all
qed

lemma filter_all_True:
  "length xs \<le> length (filter (\<lambda>b. b) xs) \<Longrightarrow> \<forall>i<length xs. xs ! i"
proof (induction xs)
  case Nil
  then show ?case by simp
next
  case (Cons x xs)
  have le: "length (filter (\<lambda>b. b) xs) \<le> length xs" by simp
  from Cons.prems le have x: "x" by (cases x) simp_all
  with Cons.prems have "length xs \<le> length (filter (\<lambda>b. b) xs)" by simp
  from Cons.IH [OF this] x show ?case by (simp add: nth_Cons' )
qed

lemma getPhantom_in_use:
  assumes "wf_pool p" "getPhantom p = (Inr h, p')"
  shows "in_use p' = Suc (in_use p) \<and> wf_pool p'"
proof -
  from getPhantom_cases [OF assms(1)] assms(2)
  obtain i where "i < length (used p)" "\<not> used p ! i" "p' = p\<lparr>used := (used p)[i := True]\<rparr>"
    by auto
  with assms(1) show ?thesis
    by (simp add: in_use_def filter_set_True wf_pool_used_update)
qed

lemma acquire_n_in_use:
  "wf_pool p \<Longrightarrow> acquire_n n p = Some p' \<Longrightarrow> in_use p' = in_use p + n \<and> wf_pool p'
     \<and> length (used p') = length (used p)"
proof (induction n arbitrary: p)
  case 0
  then show ?case by simp
next
  case (Suc n)
  from Suc.prems(2) obtain h q where g: "getPhantom p = (Inr h, q)" and a: "acquire_n n q = Some p'"
    by (auto split: prod.splits sum.splits)
  from getPhantom_in_use [OF Suc.prems(1) g] have q: "in_use q = Suc (in_use p)" "wf_pool q"
    by simp_all
  from getPhantom_keeps [OF Suc.prems(1)] g Suc.prems(1) q(2)
  have "length (used q) = length (used p)" by (simp add: wf_pool_def)
  with Suc.IH [OF q(2) a] q(1) show ?case by simp
qed

lemma full_pool_fails:
  assumes "wf_pool p" "length (used p) \<le> in_use p"
  shows "getPhantom p = (Inl (Error ''Could not get phantom process''), p)"
proof -
  from assms(2) have "\<forall>i<length (used p). used p ! i"
    unfolding in_use_def by (rule filter_all_True)
  with getPhantom_cases [OF assms(1)] show ?thesis by auto
qed

lemma full_pool_release_acquire:
  assumes "wf_pool p" "\<forall>i<length (used p). used p ! i" "ph \<in> set (workers p)"
  shows "fst (getPhantom (snd (releasePhantom p ph))) = Inr ph"
proof -
  from releasePhantom_stored [OF assms(1,3)]
  obtain k where k: "k < length (workers p)" "workers p ! k = ph"
    and rel: "releasePhantom p ph = (Inr (), p\<lparr>used := (used p)[k := False]\<rparr>)"
    by blast
  let ?q = "p\<lparr>used := (used p)[k := False]\<rparr>"
  have len: "length (used p) = length (workers p)" using assms(1) by (simp add: wf_pool_def)
  have wfq: "wf_pool ?q" using assms(1) by (rule wf_pool_used_update)
  have free: "\<not> used ?q ! k" using k len by simp
  from getPhantom_cases [OF wfq]
  obtain i where i: "i < length (used ?q)" "\<not> used ?q ! i"
    "getPhantom ?q = (Inr (workers ?q ! i), ?q\<lparr>used := (used ?q)[i := True]\<rparr>)"
    using free k len by auto
  have "i = k"
  proof (rule ccontr)
    assume "i \<noteq> k"
    with i(1,2) assms(2) show False by simp
  qed
  with i(3) k rel show ?thesis by simp
qed

text \<open>
  C2. In a pool that \<open>New\<close> built with size \<open>N\<close>, after any sequence of acquire and
  release calls both slices still have \<open>N\<close> entries, the size field and the handles
  are the ones \<open>New\<close> set, and at most \<open>N\<close> flags are set. After \<open>N\<close> acquisitions in
  a row that all succeed, \<^verbatim>\<open>getPhantom\<close> fails and changes nothing, so it keeps
  failing however often it is called; once a handle of the pool is released, the next
  \<^verbatim>\<open>getPhantom\<close> succeeds and returns that handle.
\<close>
theorem pool_bounded:
  assumes "New N Start = Inr p0"
  shows "length (workers (fold apply_op ops p0)) = nat N
       \<and> length (used (fold apply_op ops p0)) = nat N
       \<and> pool_size (fold apply_op ops p0) = N
       \<and> workers (fold apply_op ops p0) = workers p0
       \<and> in_use (fold apply_op ops p0) \<le> nat N
       \<and> (\<forall>p'. acquire_n (nat N) (fold apply_op ops p0) = Some p' \<longrightarrow>
             getPhantom p' = (Inl (Error ''Could not get phantom process''), p')
           \<and> (\<forall>ph\<in>set (workers p'). fst (getPhantom (snd (releasePhantom p' ph))) = Inr ph))"
proof -
  let ?p = "fold apply_op ops p0"
  from New_wf [OF assms] have p0: "wf_pool p0" "pool_size p0 = N" "0 \<le> N" by simp_all
  from fold_apply_op_keeps [OF p0(1), of ops]
  have p: "wf_pool ?p" "workers ?p = workers p0" "pool_size ?p = N" using p0(2) by simp_all
  from p(1,3) p0(3) have len: "length (used ?p) = nat N" "length (workers ?p) = nat N"
    by (simp_all add: wf_pool_def)
  have bound: "in_use ?p \<le> nat N"
    unfolding in_use_def len(1) [symmetric] by simp
  have after: "getPhantom p' = (Inl (Error ''Could not get phantom process''), p')
      \<and> (\<forall>ph\<in>set (workers p'). fst (getPhantom (snd (releasePhantom p' ph))) = Inr ph)"
    if a: "acquire_n (nat N) ?p = Some p'" for p'
  proof -
    from acquire_n_in_use [OF p(1) a] len
    have p': "wf_pool p'" "length (used p') \<le> in_use p'" by simp_all
    from p'(2) have all: "\<forall>i<length (used p'). used p' ! i"
      unfolding in_use_def by (rule filter_all_True)
    from full_pool_fails [OF p'] full_pool_release_acquire [OF p'(1) all]
    show ?thesis by blast
  qed
  from len p(2,3) bound after show ?thesis by blast
qed

lemma New_example: "New 2 Start_ok = Inr pool_new"
  by (simp add: New_def New_loop.simps Start_ok_def pool_new_def numeral_2_eq_2)

lemma fold_example: "fold apply_op [Acquire, Release (Ptr 10)] pool_new = pool_new"
  by (simp add: getPhantom_def getPhantom_loop.simps releasePhantom_def releasePhantom_loop.simps
      pool_new_def)

lemma acquire_n_example: "acquire_n 2 pool_new = Some pool_full"
  by (simp add: numeral_2_eq_2 getPhantom_def getPhantom_loop.simps pool_new_def pool_full_def)

theorem pool_bounded_witness:
  "New 2 Start_ok = Inr pool_new
   \<and> acquire_n (nat 2) (fold apply_op [Acquire, Release (Ptr 10)] pool_new) = Some pool_full
   \<and> Ptr 11 \<in> set (workers pool_full)
   \<and> length (used (fold apply_op [Acquire, Release (Ptr 10)] pool_new)) = nat 2
   \<and> in_use (fold apply_op [Acquire, Acquire, Acquire] pool_new) \<le> nat 2
   \<and> getPhantom pool_full = (Inl (Error ''Could not get phantom process''), pool_full)
   \<and> fst (getPhantom (snd (releasePhantom pool_full (Ptr 11)))) = Inr (Ptr 11)"
proof -
  have n: "New 2 Start_ok = Inr pool_new" by (rule New_example)
  have a: "acquire_n (nat 2) (fold apply_op [Acquire, Release (Ptr 10)] pool_new) = Some pool_full"
    using acquire_n_example fold_example by simp
  have m: "Ptr 11 \<in> set (workers pool_full)" by (simp add: pool_full_def)
  from pool_bounded [OF n, of "[Acquire, Release (Ptr 10)]"]
    pool_bounded [OF n, of "[Acquire, Acquire, Acquire]"] a m n
  show ?thesis by blast
qed

subsection \<open>The retry loop\<close>

lemma calls_of_append: "calls_of (xs @ ys) = calls_of xs @ calls_of ys"
  by (induction xs rule: calls_of.induct) simp_all

lemma sleeps_of_append: "sleeps_of (xs @ ys) = sleeps_of xs @ sleeps_of ys"
  by (induction xs rule: sleeps_of.induct) simp_all

lemma released_append: "released (xs @ ys) = released xs @ released ys"
  by (induction xs rule: released.induct) simp_all

lemma calls_of_rounds: "calls_of (concat (map fail_round ms)) = map (\<lambda>m. Inl (Error m)) ms"
  by (induction ms) (simp_all add: fail_round_def)

lemma sleeps_of_rounds:
  "sleeps_of (concat (map fail_round ms)) = replicate (length ms) (200 * Millisecond)"
  by (induction ms) (simp_all add: fail_round_def)

lemma released_rounds: "released (concat (map fail_round ms)) = []"
  by (induction ms) (simp_all add: fail_round_def)

lemma try_loop_stop:
  "\<not> attempt \<le> maxTries \<Longrightarrow>
   try_loop attempt maxTries fn w = (Inl (Error ''Maximum phantom wait time exceeded''), w)"
  by (subst try_loop.simps) simp

lemma try_loop_success_step:
  assumes "attempt \<le> maxTries" "fst (fn (st w)) = Inr h"
  shows "try_loop attempt maxTries fn w =
         (Inr h, w\<lparr>st := snd (fn (st w)), trace := trace w @ [EvCall (Inr h)]\<rparr>)"
  using assms
  by (subst try_loop.simps) (cases "fn (st w)", simp add: Let_def)

lemma try_loop_panic_step:
  assumes "attempt \<le> maxTries" "fst (fn (st w)) = Inl (Panic m)"
  shows "try_loop attempt maxTries fn w =
         (Inl (Panic m), w\<lparr>st := snd (fn (st w)), trace := trace w @ [EvCall (Inl (Panic m))]\<rparr>)"
  using assms
  by (subst try_loop.simps) (cases "fn (st w)", simp add: Let_def)

lemma try_loop_fail_step:
  assumes "attempt \<le> maxTries" "fst (fn (st w)) = Inl (Error m)"
  shows "try_loop attempt maxTries fn w =
         try_loop (attempt + 1) maxTries fn
           (w\<lparr>st := snd (fn (st w)), trace := trace w @ fail_round m\<rparr>)"
  using assms
  by (subst try_loop.simps) (cases "fn (st w)", simp add: Let_def time_Sleep_def fail_round_def)

lemma try_loop_all_fail:
  assumes "\<forall>k<n. \<exists>m. fst (fn (state_after fn (k) (st w))) = Inl (Error m)"
    and "maxTries + 1 - attempt = int n"
  shows "\<exists>ms. length ms = n
           \<and> (\<forall>k<n. fst (fn (state_after fn (k) (st w))) = Inl (Error (ms ! k)))
           \<and> try_loop attempt maxTries fn w =
               (Inl (Error ''Maximum phantom wait time exceeded''),
                w\<lparr>st := state_after fn (n) (st w), trace := trace w @ concat (map fail_round ms)\<rparr>)"
  using assms
proof (induction n arbitrary: attempt w)
  case 0
  then have "\<not> attempt \<le> maxTries" by simp
  then show ?case by (simp add: try_loop_stop)
next
  case (Suc n)
  from Suc.prems(1) obtain m where m: "fst (fn (st w)) = Inl (Error m)"
    by (metis state_after.simps(1) zero_less_Suc)
  from Suc.prems(2) have le: "attempt \<le> maxTries" by simp
  let ?w = "w\<lparr>st := snd (fn (st w)), trace := trace w @ fail_round m\<rparr>"
  have shift: "state_after fn (k) (st ?w) = state_after fn (Suc k) (st w)" for k
    by simp
  have "\<forall>k<n. \<exists>m. fst (fn (state_after fn (k) (st ?w))) = Inl (Error m)"
    using Suc.prems(1) unfolding shift by auto
  moreover have "maxTries + 1 - (attempt + 1) = int n"
    using Suc.prems(2) by simp
  ultimately obtain ms where ms: "length ms = n"
    "\<forall>k<n. fst (fn (state_after fn (k) (st ?w))) = Inl (Error (ms ! k))"
    "try_loop (attempt + 1) maxTries fn ?w =
       (Inl (Error ''Maximum phantom wait time exceeded''),
        ?w\<lparr>st := state_after fn (n) (st ?w), trace := trace ?w @ concat (map fail_round ms)\<rparr>)"
    using Suc.IH [of ?w "attempt + 1"] by blast
  have res: "\<forall>k<Suc n. fst (fn (state_after fn (k) (st w))) = Inl (Error ((m # ms) ! k))"
  proof (intro allI impI)
    fix k assume "k < Suc n"
    show "fst (fn (state_after fn (k) (st w))) = Inl (Error ((m # ms) ! k))"
    proof (cases k)
      case 0
      with m show ?thesis by simp
    next
      case (Suc j)
      with \<open>k < Suc n\<close> ms(2) have "fst (fn (state_after fn (j) (st ?w))) = Inl (Error (ms ! j))"
        by simp
      with Suc show ?thesis unfolding shift by simp
    qed
  qed
  have "try_loop attempt maxTries fn w =
       (Inl (Error ''Maximum phantom wait time exceeded''),
        w\<lparr>st := state_after fn (Suc n) (st w), trace := trace w @ concat (map fail_round (m # ms))\<rparr>)"
    unfolding try_loop_fail_step [of attempt maxTries fn w m, OF le m] ms(3) shift by simp
  with ms(1) res show ?case
    by (intro exI [of _ "m # ms"]) simp
qed

lemma try_loop_success_at:
  assumes "\<forall>k<n. \<exists>m. fst (fn (state_after fn (k) (st w))) = Inl (Error m)"
    and "fst (fn (state_after fn (n) (st w))) = Inr h"
    and "int n < maxTries + 1 - attempt"
  shows "\<exists>ms. length ms = n
           \<and> (\<forall>k<n. fst (fn (state_after fn (k) (st w))) = Inl (Error (ms ! k)))
           \<and> try_loop attempt maxTries fn w =
               (Inr h,
                w\<lparr>st := state_after fn (Suc n) (st w),
                  trace := trace w @ concat (map fail_round ms) @ [EvCall (Inr h)]\<rparr>)"
  using assms
proof (induction n arbitrary: attempt w)
  case 0
  then have "attempt \<le> maxTries" "fst (fn (st w)) = Inr h" by simp_all
  then show ?case
    by (simp add: try_loop_success_step)
next
  case (Suc n)
  from Suc.prems(1) obtain m where m: "fst (fn (st w)) = Inl (Error m)"
    by (metis state_after.simps(1) zero_less_Suc)
  from Suc.prems(3) have le: "attempt \<le> maxTries" by simp
  let ?w = "w\<lparr>st := snd (fn (st w)), trace := trace w @ fail_round m\<rparr>"
  have shift: "state_after fn (k) (st ?w) = state_after fn (Suc k) (st w)" for k
    by simp
  have "\<forall>k<n. \<exists>m. fst (fn (state_after fn (k) (st ?w))) = Inl (Error m)"
    using Suc.prems(1) unfolding shift by auto
  moreover have "fst (fn (state_after fn (n) (st ?w))) = Inr h"
    using Suc.prems(2) unfolding shift .
  moreover have "int n < maxTries + 1 - (attempt + 1)"
    using Suc.prems(3) by simp
  ultimately obtain ms where ms: "length ms = n"
    "\<forall>k<n. fst (fn (state_after fn (k) (st ?w))) = Inl (Error (ms ! k))"
    "try_loop (attempt + 1) maxTries fn ?w =
       (Inr h,
        ?w\<lparr>st := state_after fn (Suc n) (st ?w),
           trace := trace ?w @ concat (map fail_round ms) @ [EvCall (Inr h)]\<rparr>)"
    using Suc.IH [of ?w "attempt + 1"] by blast
  have res: "\<forall>k<Suc n. fst (fn (state_after fn (k) (st w))) = Inl (Error ((m # ms) ! k))"
  proof (intro allI impI)
    fix k assume "k < Suc n"
    show "fst (fn (state_after fn (k) (st w))) = Inl (Error ((m # ms) ! k))"
    proof (cases k)
      case 0
      with m show ?thesis by simp
    next
      case (Suc j)
      with \<open>k < Suc n\<close> ms(2) have "fst (fn (state_after fn (j) (st ?w))) = Inl (Error (ms ! j))"
        by simp
      with Suc show ?thesis unfolding shift by simp
    qed
  qed
  have "try_loop attempt maxTries fn w =
       (Inr h,
        w\<lparr>st := state_after fn (Suc (Suc n)) (st w),
          trace := trace w @ concat (map fail_round (m # ms)) @ [EvCall (Inr h)]\<rparr>)"
    unfolding try_loop_fail_step [of attempt maxTries fn w m, OF le m] ms(3) shift by simp
  with ms(1) res show ?case
    by (intro exI [of _ "m # ms"]) simp
qed

lemma try_loop_calls:
  "\<exists>cs. calls_of (trace (snd (try_loop attempt maxTries fn w))) = calls_of (trace w) @ cs
        \<and> int (length cs) \<le> max 0 (maxTries + 1 - attempt)
        \<and> (attempt \<le> maxTries \<longrightarrow> cs \<noteq> [])"
proof (induction "nat (maxTries + 1 - attempt)" arbitrary: attempt w)
  case 0
  then have "\<not> attempt \<le> maxTries" by simp
  then show ?case by (simp add: try_loop_stop)
next
  case (Suc n)
  then have le: "attempt \<le> maxTries" by simp
  show ?case
  proof (cases "fst (fn (st w))")
    case (Inr h)
    show ?thesis
      unfolding try_loop_success_step [of attempt maxTries fn w h, OF le Inr] using le
      by (simp add: calls_of_append)
  next
    case (Inl e)
    show ?thesis
    proof (cases e)
      case (Panic m)
      with Inl have "fst (fn (st w)) = Inl (Panic m)" by simp
      from try_loop_panic_step [of attempt maxTries fn w m, OF le this] le show ?thesis
        by (simp add: calls_of_append)
    next
      case (Error m)
      with Inl have f: "fst (fn (st w)) = Inl (Error m)" by simp
      let ?w = "w\<lparr>st := snd (fn (st w)), trace := trace w @ fail_round m\<rparr>"
      from Suc.hyps(2) have "n = nat (maxTries + 1 - (attempt + 1))" by simp
      from Suc.hyps(1) [OF this, of ?w]
      obtain cs where cs:
        "calls_of (trace (snd (try_loop (attempt + 1) maxTries fn ?w))) = calls_of (trace ?w) @ cs"
        "int (length cs) \<le> max 0 (maxTries + 1 - (attempt + 1))"
        by blast
      have "calls_of (trace ?w) = calls_of (trace w) @ [Inl (Error m)]"
        by (simp add: calls_of_append fail_round_def)
      with cs le show ?thesis
        unfolding try_loop_fail_step [of attempt maxTries fn w m, OF le f]
        by (intro exI [of _ "Inl (Error m) # cs"]) simp
    qed
  qed
qed

lemma try_loop_released:
  "released (trace (snd (try_loop attempt maxTries fn w))) = released (trace w)"
proof (induction "nat (maxTries + 1 - attempt)" arbitrary: attempt w)
  case 0
  then have "\<not> attempt \<le> maxTries" by simp
  then show ?case by (simp add: try_loop_stop)
next
  case (Suc n)
  then have le: "attempt \<le> maxTries" by simp
  show ?case
  proof (cases "fst (fn (st w))")
    case (Inr h)
    show ?thesis
      unfolding try_loop_success_step [of attempt maxTries fn w h, OF le Inr] by (simp add: released_append)
  next
    case (Inl e)
    show ?thesis
    proof (cases e)
      case (Panic m)
      with Inl have "fst (fn (st w)) = Inl (Panic m)" by simp
      from try_loop_panic_step [of attempt maxTries fn w m, OF le this] show ?thesis
        by (simp add: released_append)
    next
      case (Error m)
      with Inl have f: "fst (fn (st w)) = Inl (Error m)" by simp
      let ?w = "w\<lparr>st := snd (fn (st w)), trace := trace w @ fail_round m\<rparr>"
      from Suc.hyps(2) have "n = nat (maxTries + 1 - (attempt + 1))" by simp
      from Suc.hyps(1) [OF this, of ?w]
      have "released (trace (snd (try_loop (attempt + 1) maxTries fn ?w))) = released (trace ?w)" .
      then show ?thesis
        unfolding try_loop_fail_step [of attempt maxTries fn w m, OF le f]
        by (simp add: released_append fail_round_def)
    qed
  qed
qed

text \<open>
  C6. For \<open>maxTries \<ge> 1\<close> the retry loop calls \<open>fn\<close> at least once and at most \<open>maxTries\<close>
  times. If calls \<open>1 .. n\<close> return errors and call \<open>n + 1 \<le> maxTries\<close> returns a handle,
  the loop returns that handle, and its trace is \<open>n\<close> rounds of a failed call followed
  by a sleep of 200 ms, then the successful call and nothing after it. If the first
  \<open>maxTries\<close> calls all return errors, the trace is \<open>maxTries\<close> such rounds and the loop
  returns the error \<^verbatim>\<open>Maximum phantom wait time exceeded\<close>, which is what the
  description calls the exhausted pool after the retry budget.
\<close>
theorem try_fn_policy:
  assumes "1 \<le> maxTries"
  shows "(\<forall>n h. int n < maxTries
              \<and> (\<forall>k<n. \<exists>m. fst (fn (state_after fn k (st w))) = Inl (Error m))
              \<and> fst (fn (state_after fn n (st w))) = Inr h \<longrightarrow>
            (\<exists>ms. length ms = n
               \<and> (\<forall>k<n. fst (fn (state_after fn k (st w))) = Inl (Error (ms ! k)))
               \<and> try_fn maxTries fn w =
                   (Inr h, w\<lparr>st := state_after fn (Suc n) (st w),
                             trace := trace w @ concat (map fail_round ms) @ [EvCall (Inr h)]\<rparr>)))
       \<and> ((\<forall>k<nat maxTries. \<exists>m. fst (fn (state_after fn k (st w))) = Inl (Error m)) \<longrightarrow>
            (\<exists>ms. length ms = nat maxTries
               \<and> (\<forall>k<nat maxTries. fst (fn (state_after fn k (st w))) = Inl (Error (ms ! k)))
               \<and> try_fn maxTries fn w =
                   (Inl (Error ''Maximum phantom wait time exceeded''),
                    w\<lparr>st := state_after fn (nat maxTries) (st w),
                      trace := trace w @ concat (map fail_round ms)\<rparr>)))
       \<and> (\<exists>cs. calls_of (trace (snd (try_fn maxTries fn w))) = calls_of (trace w) @ cs
              \<and> 1 \<le> length cs \<and> length cs \<le> nat maxTries)"
proof (intro conjI allI impI)
  fix n h
  assume "int n < maxTries
      \<and> (\<forall>k<n. \<exists>m. fst (fn (state_after fn k (st w))) = Inl (Error m))
      \<and> fst (fn (state_after fn n (st w))) = Inr h"
  then have "\<forall>k<n. \<exists>m. fst (fn (state_after fn k (st w))) = Inl (Error m)"
    "fst (fn (state_after fn n (st w))) = Inr h" "int n < maxTries + 1 - 1"
    by simp_all
  from try_loop_success_at [OF this]
  show "\<exists>ms. length ms = n
          \<and> (\<forall>k<n. fst (fn (state_after fn k (st w))) = Inl (Error (ms ! k)))
          \<and> try_fn maxTries fn w =
              (Inr h, w\<lparr>st := state_after fn (Suc n) (st w),
                        trace := trace w @ concat (map fail_round ms) @ [EvCall (Inr h)]\<rparr>)"
    unfolding try_fn_def .
next
  assume "\<forall>k<nat maxTries. \<exists>m. fst (fn (state_after fn k (st w))) = Inl (Error m)"
  moreover from assms have "maxTries + 1 - 1 = int (nat maxTries)" by simp
  ultimately show "\<exists>ms. length ms = nat maxTries
      \<and> (\<forall>k<nat maxTries. fst (fn (state_after fn k (st w))) = Inl (Error (ms ! k)))
      \<and> try_fn maxTries fn w =
          (Inl (Error ''Maximum phantom wait time exceeded''),
           w\<lparr>st := state_after fn (nat maxTries) (st w),
             trace := trace w @ concat (map fail_round ms)\<rparr>)"
    unfolding try_fn_def by (rule try_loop_all_fail)
next
  from try_loop_calls [of 1 maxTries fn w] assms
  obtain cs where "calls_of (trace (snd (try_loop 1 maxTries fn w))) = calls_of (trace w) @ cs"
    "int (length cs) \<le> maxTries" "cs \<noteq> []"
    by auto
  then show "\<exists>cs. calls_of (trace (snd (try_fn maxTries fn w))) = calls_of (trace w) @ cs
      \<and> 1 \<le> length cs \<and> length cs \<le> nat maxTries"
    unfolding try_fn_def
    by (intro exI [of _ cs]) (auto simp: Suc_le_eq)
qed

lemma state_after_fixed: "snd (fn p) = p \<Longrightarrow> state_after fn k p = p"
  by (induction k) simp_all

lemma getPhantom_pool_full:
  "getPhantom pool_full = (Inl (Error ''Could not get phantom process''), pool_full)"
  by (simp add: getPhantom_def getPhantom_loop.simps pool_full_def)

lemma state_after_pool_full: "state_after getPhantom k pool_full = pool_full"
  by (rule state_after_fixed) (simp add: getPhantom_pool_full)

theorem try_fn_policy_witness:
  "(1::int) \<le> 3
   \<and> try_fn 3 flaky \<lparr>st = 0, trace = []\<rparr> =
       (Inr (Ptr 7),
        \<lparr>st = 2, trace = [EvCall (Inl (Error ''busy'')), EvSleep (200 * Millisecond),
                          EvCall (Inr (Ptr 7))]\<rparr>)
   \<and> try_fn 3 getPhantom \<lparr>st = pool_full, trace = []\<rparr> =
       (Inl (Error ''Maximum phantom wait time exceeded''),
        \<lparr>st = pool_full,
         trace = concat (replicate 3 [EvCall (Inl (Error ''Could not get phantom process'')),
                                      EvSleep (200 * Millisecond)])\<rparr>)"
proof -
  let ?w = "\<lparr>st = 0::nat, trace = []\<rparr>"
  let ?v = "\<lparr>st = pool_full, trace = []\<rparr>"
  have le: "(1::int) \<le> 3" by simp
  have "int 1 < 3 \<and> (\<forall>k<1. \<exists>m. fst (flaky (state_after flaky k (st ?w))) = Inl (Error m))
      \<and> fst (flaky (state_after flaky 1 (st ?w))) = Inr (Ptr 7)"
    by (simp add: flaky_def)
  with try_fn_policy [OF le, of flaky ?w]
  obtain ms where ms: "length ms = 1"
    "\<forall>k<1. fst (flaky (state_after flaky k (st ?w))) = Inl (Error (ms ! k))"
    "try_fn 3 flaky ?w =
       (Inr (Ptr 7), ?w\<lparr>st := state_after flaky (Suc 1) (st ?w),
                        trace := trace ?w @ concat (map fail_round ms) @ [EvCall (Inr (Ptr 7))]\<rparr>)"
    by blast
  from ms(1,2) have "ms = [''busy'']"
    by (cases ms) (auto simp: flaky_def)
  with ms(3) have a: "try_fn 3 flaky ?w =
       (Inr (Ptr 7),
        \<lparr>st = 2, trace = [EvCall (Inl (Error ''busy'')), EvSleep (200 * Millisecond),
                          EvCall (Inr (Ptr 7))]\<rparr>)"
    by (simp add: fail_round_def flaky_def)
  have "\<forall>k<nat 3. \<exists>m. fst (getPhantom (state_after getPhantom k (st ?v))) = Inl (Error m)"
    by (simp add: state_after_pool_full getPhantom_pool_full)
  with try_fn_policy [OF le, of getPhantom ?v]
  obtain ns where ns: "length ns = nat 3"
    "\<forall>k<nat 3. fst (getPhantom (state_after getPhantom k (st ?v))) = Inl (Error (ns ! k))"
    "try_fn 3 getPhantom ?v =
       (Inl (Error ''Maximum phantom wait time exceeded''),
        ?v\<lparr>st := state_after getPhantom (nat 3) (st ?v),
           trace := trace ?v @ concat (map fail_round ns)\<rparr>)"
    by blast
  from ns(2) have "\<forall>k<length ns. ns ! k = ''Could not get phantom process''"
    unfolding ns(1) by (simp add: state_after_pool_full getPhantom_pool_full)
  then have "ns = replicate (length ns) ''Could not get phantom process''"
    by (intro nth_equalityI) simp_all
  with ns(1) have "map fail_round ns = replicate 3 (fail_round ''Could not get phantom process'')"
    by (metis map_replicate nat_numeral)
  with ns(3) have b: "try_fn 3 getPhantom ?v =
       (Inl (Error ''Maximum phantom wait time exceeded''),
        \<lparr>st = pool_full,
         trace = concat (replicate 3 [EvCall (Inl (Error ''Could not get phantom process'')),
                                      EvSleep (200 * Millisecond)])\<rparr>)"
    by (simp add: state_after_pool_full fail_round_def)
  from le a b show ?thesis by blast
qed

lemma last_rounds:
  "ms \<noteq> [] \<Longrightarrow> last (xs @ concat (map fail_round ms)) = EvSleep (200 * Millisecond)"
proof (induction ms rule: rev_induct)
  case Nil
  then show ?case by simp
next
  case (snoc m ms)
  have "xs @ concat (map fail_round (ms @ [m])) =
        (xs @ concat (map fail_round ms) @ [EvCall (Inl (Error m))]) @ [EvSleep (200 * Millisecond)]"
    by (simp add: fail_round_def)
  then show ?case by (simp only: last_snoc)
qed

text \<open>
  C10. For \<open>maxTries \<ge> 1\<close>, when every one of the \<open>maxTries\<close> calls of \<open>fn\<close> returns an
  error, the loop sleeps 200 ms after each of them, the last one included: \<open>maxTries\<close>
  calls and exactly \<open>maxTries\<close> sleeps are added to the trace, the last event before
  the return is a sleep, and the error \<^verbatim>\<open>Maximum phantom wait time exceeded\<close> is
  returned.
\<close>
theorem try_fn_sleeps_after_every_failure:
  assumes "1 \<le> maxTries"
    and "\<forall>k<nat maxTries. \<exists>m. fst (fn (state_after fn k (st w))) = Inl (Error m)"
  shows "fst (try_fn maxTries fn w) = Inl (Error ''Maximum phantom wait time exceeded'')
       \<and> sleeps_of (trace (snd (try_fn maxTries fn w))) =
           sleeps_of (trace w) @ replicate (nat maxTries) (200 * Millisecond)
       \<and> length (calls_of (trace (snd (try_fn maxTries fn w)))) =
           length (calls_of (trace w)) + nat maxTries
       \<and> last (trace (snd (try_fn maxTries fn w))) = EvSleep (200 * Millisecond)"
proof -
  from assms(1) have "maxTries + 1 - 1 = int (nat maxTries)" by simp
  from try_loop_all_fail [OF assms(2) this]
  obtain ms where ms: "length ms = nat maxTries"
    "try_fn maxTries fn w =
       (Inl (Error ''Maximum phantom wait time exceeded''),
        w\<lparr>st := state_after fn (nat maxTries) (st w),
          trace := trace w @ concat (map fail_round ms)\<rparr>)"
    unfolding try_fn_def by blast
  from ms(1) assms(1) have "ms \<noteq> []" by auto
  then have "last (trace w @ concat (map fail_round ms)) = EvSleep (200 * Millisecond)"
    by (rule last_rounds)
  with ms show ?thesis
    by (simp add: sleeps_of_append calls_of_append sleeps_of_rounds calls_of_rounds)
qed

theorem try_fn_sleeps_after_every_failure_witness:
  "(1::int) \<le> 3
   \<and> fst (getPhantom (state_after getPhantom 0 pool_full)) =
       Inl (Error ''Could not get phantom process'')
   \<and> fst (getPhantom (state_after getPhantom 1 pool_full)) =
       Inl (Error ''Could not get phantom process'')
   \<and> fst (getPhantom (state_after getPhantom 2 pool_full)) =
       Inl (Error ''Could not get phantom process'')
   \<and> fst (try_fn 3 getPhantom \<lparr>st = pool_full, trace = []\<rparr>) =
       Inl (Error ''Maximum phantom wait time exceeded'')
   \<and> sleeps_of (trace (snd (try_fn 3 getPhantom \<lparr>st = pool_full, trace = []\<rparr>))) =
       [200 * Millisecond, 200 * Millisecond, 200 * Millisecond]
   \<and> last (trace (snd (try_fn 3 getPhantom \<lparr>st = pool_full, trace = []\<rparr>))) =
       EvSleep (200 * Millisecond)"
proof -
  let ?v = "\<lparr>st = pool_full, trace = []\<rparr>"
  have le: "(1::int) \<le> 3" by simp
  have f: "\<forall>k<nat 3. \<exists>m. fst (getPhantom (state_after getPhantom k (st ?v))) = Inl (Error m)"
    by (simp add: state_after_pool_full getPhantom_pool_full)
  have g: "fst (getPhantom (state_after getPhantom k pool_full)) =
       Inl (Error ''Could not get phantom process'')" for k
    by (simp add: state_after_pool_full getPhantom_pool_full)
  from try_fn_sleeps_after_every_failure [OF le f]
  have r: "fst (try_fn 3 getPhantom ?v) = Inl (Error ''Maximum phantom wait time exceeded'')
      \<and> sleeps_of (trace (snd (try_fn 3 getPhantom ?v))) =
          [200 * Millisecond, 200 * Millisecond, 200 * Millisecond]
      \<and> last (trace (snd (try_fn 3 getPhantom ?v))) = EvSleep (200 * Millisecond)"
    by (simp add: numeral_3_eq_3)
  from r g [of 0] g [of 1] g [of 2] le show ?thesis by blast
qed

subsection \<open>The orchestrator and the parser\<close>

lemma getMeasurementsInternal_released:
  "released (trace (snd (getMeasurementsInternal env ph rawurl thumbnailsDir w))) = released (trace w)
   \<and> st (snd (getMeasurementsInternal env ph rawurl thumbnailsDir w)) = st w"
  by (simp add: getMeasurementsInternal_def getThumbnailFile_def Let_def released_append
      split: sum.splits prod.splits)

lemma range_Responses_id: "range_Responses es performance = performance"
  by (induction es performance rule: range_Responses.induct) simp_all

lemma getMeasurementsInternal_result:
  assumes "fst (getMeasurementsInternal env ph rawurl thumbnailsDir w) = Inr performance"
  shows "\<exists>j decoded. Unmarshal env j = Inr decoded
           \<and> Responses performance = Responses decoded
           \<and> LoadTime performance = LoadTime decoded
           \<and> LoadTimeDuration performance = LoadTime decoded * Millisecond"
  using assms
  by (fastforce simp: getMeasurementsInternal_def getThumbnailFile_def Let_def range_Responses_id
      split: sum.splits prod.splits if_splits)

text \<open>
  C1. The parser is to return \<open>LoadTimeDuration\<close> equal to \<open>LoadTime\<close> milliseconds and
  to store, in every entry of \<open>Responses\<close>, \<open>RunningTimeDuration\<close> equal to
  \<open>RunningTime\<close> milliseconds. For the engine result with load time 500 and one
  response of running time 100, \<^verbatim>\<open>getMeasurementsInternal\<close> returns the decoded record
  with \<open>LoadTimeDuration\<close> set to 500 ms, and the stored response still has
  \<open>RunningTimeDuration = 0\<close>, which is not 100 ms.
\<close>
theorem getMeasurementsInternal_discards_runningTimeDuration:
  "getMeasurementsInternal env_ok (Ptr 10) ''http://a'' [] world0 =
     (Inr (decoded_page\<lparr>LoadTimeDuration := 500 * Millisecond\<rparr>),
      world0\<lparr>trace := [EvRun (Ptr 10) (getJsFunc ''http://a'' [])]\<rparr>)
   \<and> map (\<lambda>(k, v). (k, RunningTime v, RunningTimeDuration v))
        (Responses (decoded_page\<lparr>LoadTimeDuration := 500 * Millisecond\<rparr>)) = [(1, 100, 0)]
   \<and> (0 :: Duration) \<noteq> 100 * Millisecond"
  by (simp add: getMeasurementsInternal_def getThumbnailFile_def env_ok_def decoded_page_def
      world0_def Millisecond_def)



text \<open>
  C3. When the url is accepted, \<open>nrOfTries \<ge> 1\<close> and the retry loop returns a handle,
  \<^verbatim>\<open>GetMeasurements\<close> calls \<^verbatim>\<open>releasePhantom\<close> exactly once, with that handle, as the
  last thing it does, whatever the environment makes of the temporary file, of the
  engine run and of the two conversions: this covers the successful return and the
  three failures. The pool it leaves is the one that release produces.
\<close>
theorem GetMeasurements_releases_once:
  assumes "ParseRequestURI env rawurl = Inr u" "1 \<le> nrOfTries"
    and "try_fn nrOfTries getPhantom w = (Inr h, w1)"
  shows "released (trace (snd (GetMeasurements env rawurl nrOfTries thumbnailsDir w))) =
           released (trace w) @ [h]
       \<and> last (trace (snd (GetMeasurements env rawurl nrOfTries thumbnailsDir w))) = EvRelease h
       \<and> st (snd (GetMeasurements env rawurl nrOfTries thumbnailsDir w)) =
           snd (releasePhantom (st w1) h)"
proof -
  obtain res w2 where g: "getMeasurementsInternal env h rawurl thumbnailsDir w1 = (res, w2)"
    by (cases "getMeasurementsInternal env h rawurl thumbnailsDir w1")
  obtain r w3 where c: "call_releasePhantom h w2 = (r, w3)"
    by (cases "call_releasePhantom h w2")
  from getMeasurementsInternal_released [of env h rawurl thumbnailsDir w1] g
  have w2: "released (trace w2) = released (trace w1)" "st w2 = st w1" by simp_all
  from try_loop_released [of 1 nrOfTries getPhantom w] assms(3)
  have w1: "released (trace w1) = released (trace w)" by (simp add: try_fn_def)
  from c have w3: "trace w3 = trace w2 @ [EvRelease h]" "st w3 = snd (releasePhantom (st w2) h)"
    by (auto simp: call_releasePhantom_def split: prod.splits)
  have "snd (GetMeasurements env rawurl nrOfTries thumbnailsDir w) = w3"
    using assms g c by (simp add: GetMeasurements_def split: sum.splits error.splits)
  with w1 w2 w3 show ?thesis by (simp add: released_append)
qed

lemma try_fn_world0: "try_fn 1 getPhantom world0 =
    (Inr (Ptr 10), \<lparr>st = pool_new\<lparr>used := [True, False]\<rparr>, trace = [EvCall (Inr (Ptr 10))]\<rparr>)"
  by (simp add: try_fn_def try_loop.simps getPhantom_def getPhantom_loop.simps world0_def pool_new_def)

theorem GetMeasurements_releases_once_witness:
  "ParseRequestURI env_ok ''http://a'' = Inr () \<and> (1::int) \<le> 1
   \<and> fst (try_fn 1 getPhantom world0) = Inr (Ptr 10)
   \<and> released (trace (snd (GetMeasurements env_ok ''http://a'' 1 ''/tmp'' world0))) = [Ptr 10]
   \<and> last (trace (snd (GetMeasurements env_ok ''http://a'' 1 ''/tmp'' world0))) = EvRelease (Ptr 10)
   \<and> st (snd (GetMeasurements env_ok ''http://a'' 1 ''/tmp'' world0)) = pool_new
   \<and> released (trace (snd (GetMeasurements (env_ok\<lparr>TempFile := \<lambda>dir. Inl (Error ''no such directory'')\<rparr>)
         ''http://a'' 1 ''/tmp'' world0))) = [Ptr 10]
   \<and> released (trace (snd (GetMeasurements (env_ok\<lparr>Run := \<lambda>ph s. Inl (Error ''engine failed'')\<rparr>)
         ''http://a'' 1 ''/tmp'' world0))) = [Ptr 10]
   \<and> released (trace (snd (GetMeasurements (env_ok\<lparr>Unmarshal := \<lambda>j. Inl (Error ''unexpected end of JSON input'')\<rparr>)
         ''http://a'' 1 ''/tmp'' world0))) = [Ptr 10]"
proof -
  have le: "(1::int) \<le> 1" by simp
  have rel: "snd (releasePhantom (pool_new\<lparr>used := [True, False]\<rparr>) (Ptr 10)) = pool_new"
    by (simp add: releasePhantom_def releasePhantom_loop.simps pool_new_def)
  have tr: "trace world0 = []" by (simp add: world0_def)
  have all: "released (trace (snd (GetMeasurements env ''http://a'' 1 ''/tmp'' world0))) = [Ptr 10]
        \<and> last (trace (snd (GetMeasurements env ''http://a'' 1 ''/tmp'' world0))) = EvRelease (Ptr 10)
        \<and> st (snd (GetMeasurements env ''http://a'' 1 ''/tmp'' world0)) = pool_new"
    if p: "ParseRequestURI env ''http://a'' = Inr ()" for env :: "string env"
    using GetMeasurements_releases_once [OF p le try_fn_world0, of "''/tmp''"] rel tr by simp
  have p0: "ParseRequestURI env_ok ''http://a'' = Inr ()"
    and p1: "ParseRequestURI (env_ok\<lparr>TempFile := \<lambda>dir. Inl (Error ''no such directory'')\<rparr>) ''http://a'' = Inr ()"
    and p2: "ParseRequestURI (env_ok\<lparr>Run := \<lambda>ph s. Inl (Error ''engine failed'')\<rparr>) ''http://a'' = Inr ()"
    and p3: "ParseRequestURI (env_ok\<lparr>Unmarshal := \<lambda>j. Inl (Error ''unexpected end of JSON input'')\<rparr>) ''http://a'' = Inr ()"
    by (simp_all add: env_ok_def)
  from all [OF p0] all [OF p1] all [OF p2] all [OF p3] p0 le try_fn_world0
  show ?thesis by simp
qed

text \<open>The four exit paths of that sample call, evaluated one by one.\<close>

lemma GetMeasurements_success_path:
  "GetMeasurements env_ok ''http://a'' 1 ''/tmp'' world0 =
     (Inr (decoded_page\<lparr>LoadTimeDuration := 500 * Millisecond, ThumbnailFile := ''/tmp/thumb1''\<rparr>),
      \<lparr>st = pool_new,
       trace = [EvCall (Inr (Ptr 10)), EvTempFile ''/tmp'',
                EvRun (Ptr 10) (getJsFunc ''http://a'' ''/tmp/thumb1''), EvRelease (Ptr 10)]\<rparr>)"
  by (simp add: GetMeasurements_def try_fn_world0 getMeasurementsInternal_def getThumbnailFile_def
      call_releasePhantom_def releasePhantom_def releasePhantom_loop.simps env_ok_def
      decoded_page_def pool_new_def)

lemma GetMeasurements_thumbnail_failure_path:
  "GetMeasurements (env_ok\<lparr>TempFile := \<lambda>dir. Inl (Error ''no such directory'')\<rparr>)
     ''http://a'' 1 ''/tmp'' world0 =
     (Inl (Error ''no such directory''),
      \<lparr>st = pool_new,
       trace = [EvCall (Inr (Ptr 10)), EvTempFile ''/tmp'', EvRelease (Ptr 10)]\<rparr>)"
  by (simp add: GetMeasurements_def try_fn_world0 getMeasurementsInternal_def getThumbnailFile_def
      call_releasePhantom_def releasePhantom_def releasePhantom_loop.simps env_ok_def
      decoded_page_def pool_new_def)

lemma GetMeasurements_engine_failure_path:
  "GetMeasurements (env_ok\<lparr>Run := \<lambda>ph s. Inl (Error ''engine failed'')\<rparr>)
     ''http://a'' 1 ''/tmp'' world0 =
     (Inl (Error ''engine failed''),
      \<lparr>st = pool_new,
       trace = [EvCall (Inr (Ptr 10)), EvTempFile ''/tmp'',
                EvRun (Ptr 10) (getJsFunc ''http://a'' ''/tmp/thumb1''), EvRelease (Ptr 10)]\<rparr>)"
  by (simp add: GetMeasurements_def try_fn_world0 getMeasurementsInternal_def getThumbnailFile_def
      call_releasePhantom_def releasePhantom_def releasePhantom_loop.simps env_ok_def
      decoded_page_def pool_new_def)

lemma GetMeasurements_parse_failure_path:
  "GetMeasurements (env_ok\<lparr>Unmarshal := \<lambda>j. Inl (Error ''unexpected end of JSON input'')\<rparr>)
     ''http://a'' 1 ''/tmp'' world0 =
     (Inl (Error ''unexpected end of JSON input''),
      \<lparr>st = pool_new,
       trace = [EvCall (Inr (Ptr 10)), EvTempFile ''/tmp'',
                EvRun (Ptr 10) (getJsFunc ''http://a'' ''/tmp/thumb1''), EvRelease (Ptr 10)]\<rparr>)"
  by (simp add: GetMeasurements_def try_fn_world0 getMeasurementsInternal_def getThumbnailFile_def
      call_releasePhantom_def releasePhantom_def releasePhantom_loop.simps env_ok_def
      decoded_page_def pool_new_def)

end
